theory Spec2Isabelle
  imports Main "HOL-Library.Word" "HOL-Library.Char_ord" "HOL-Library.List_Lexorder"
begin

section \<open>Python values, exceptions and strings\<close>

text \<open>
  The program is a single Python script, \<^verbatim>\<open>app.py\<close>.  The values it handles come out of
  \<^verbatim>\<open>csv.DictReader\<close> and \<^verbatim>\<open>ast.literal_eval\<close>: strings, and whatever literal a cell of
  the table spells.  The fragment below covers \<^verbatim>\<open>None\<close>, booleans, integers, strings, lists
  and tuples; floats, bytes, sets and dictionaries are left out.  Characters are code points
  below 256 and strings are ordered by code point, as Python orders \<^verbatim>\<open>str\<close>.
\<close>

datatype pyval =
    PNone
  | PBool bool
  | PInt int
  | PStr string
  | PList "pyval list"
  | PTuple "pyval list"

datatype error = AttributeError | TypeError | ValueError | Z3Exception

text \<open>Python's truth value test, the \<^verbatim>\<open>not text\<close> of \<^verbatim>\<open>get_id\<close>.\<close>

fun truthy :: "pyval \<Rightarrow> bool" where
  "truthy PNone = False"
| "truthy (PBool b) = b"
| "truthy (PInt i) = (i \<noteq> 0)"
| "truthy (PStr s) = (s \<noteq> [])"
| "truthy (PList xs) = (xs \<noteq> [])"
| "truthy (PTuple xs) = (xs \<noteq> [])"

text \<open>
  What a \<^verbatim>\<open>for\<close> loop runs over: the elements of a list or tuple, the one-character
  strings of a string; anything else is not iterable and raises \<^verbatim>\<open>TypeError\<close>.
\<close>

fun py_iter :: "pyval \<Rightarrow> error + pyval list" where
  "py_iter (PList xs) = Inr xs"
| "py_iter (PTuple xs) = Inr xs"
| "py_iter (PStr s) = Inr (map (\<lambda>c. PStr [c]) s)"
| "py_iter PNone = Inl TypeError"
| "py_iter (PBool b) = Inl TypeError"
| "py_iter (PInt i) = Inl TypeError"

text \<open>
  \<^verbatim>\<open>str.strip()\<close> removes the white space of \<^verbatim>\<open>str.isspace\<close> from both ends,
  \<^verbatim>\<open>str.strip(chars)\<close> the given characters.
\<close>

definition is_space :: "char \<Rightarrow> bool" where
  "is_space c = (of_char c \<in> set [9, 10, 11, 12, 13, 28, 29, 30, 31, 32, 133, 160 :: nat])"

definition strip :: "(char \<Rightarrow> bool) \<Rightarrow> string \<Rightarrow> string" where
  "strip P s = rev (dropWhile P (rev (dropWhile P s)))"

text \<open>\<^verbatim>\<open>clean = text.strip().strip("'").strip('"')\<close>\<close>

definition clean :: "string \<Rightarrow> string" where
  "clean text =
     strip (\<lambda>c. c = CHR 0x22) (strip (\<lambda>c. c = CHR 0x27) (strip is_space text))"

text \<open>\<^verbatim>\<open>str(val)\<close> of a bit-vector numeral prints its unsigned value in decimal.\<close>

definition digit :: "nat \<Rightarrow> char" where
  "digit d = char_of (48 + d)"

fun str_nat :: "nat \<Rightarrow> string" where
  "str_nat n = (if n < 10 then [digit n] else str_nat (n div 10) @ [digit (n mod 10)])"

declare str_nat.simps [simp del]

text \<open>\<^verbatim>\<open>sep.join(xs)\<close>\<close>

fun join :: "string \<Rightarrow> string list \<Rightarrow> string" where
  "join sep [] = []"
| "join sep [x] = x"
| "join sep (x # y # ys) = x @ sep @ join sep (y # ys)"


section \<open>The knowledge base\<close>

text \<open>
  \<^verbatim>\<open>Thing = BitVecSort(32)\<close>: an interned name is a 32-bit vector.  The record holds what
  \<^verbatim>\<open>load_kb\<close> builds and its closures \<^verbatim>\<open>get_id\<close> and \<^verbatim>\<open>get_name\<close> share: the two
  dictionaries, the counter (a Python integer, unbounded), the facts given to the fixedpoint
  engine for its two relations, and the two sets of names for the selection boxes.
\<close>

type_synonym thing = "32 word"

record kb =
  str_to_id :: "string \<rightharpoonup> thing"
  id_to_str :: "nat \<rightharpoonup> string"
  counter :: nat
  has_symptom :: "(thing \<times> thing) list"
  treated_with :: "(thing \<times> thing) list"
  all_symptoms :: "string set"
  all_diseases :: "string set"

definition init_kb :: kb where
  "init_kb = \<lparr> str_to_id = Map.empty, id_to_str = Map.empty, counter = 1,
               has_symptom = [], treated_with = [],
               all_symptoms = {}, all_diseases = {} \<rparr>"

text \<open>
  \<^verbatim>\<open>get_id(text)\<close>: \<^verbatim>\<open>None\<close> for a false value; else the cleaned text is looked up and,
  when new, interned under \<^verbatim>\<open>BitVecVal(counter, Thing)\<close>, which keeps the counter modulo
  \<^term>\<open>2 ^ 32 :: nat\<close>.  A true value that is not a string has no \<^verbatim>\<open>strip\<close>.
\<close>

definition intern :: "string \<Rightarrow> kb \<Rightarrow> kb" where
  "intern c st =
     (if str_to_id st c = None
      then st \<lparr> str_to_id := (str_to_id st)(c \<mapsto> word_of_nat (counter st)),
                id_to_str := (id_to_str st)(counter st \<mapsto> c),
                counter := counter st + 1 \<rparr>
      else st)"

definition get_id :: "pyval \<Rightarrow> kb \<Rightarrow> error + (thing option \<times> kb)" where
  "get_id text st =
     (if \<not> truthy text then Inr (None, st)
      else case text of
             PStr s \<Rightarrow> (let st' = intern (clean s) st in Inr (str_to_id st' (clean s), st'))
           | _ \<Rightarrow> Inl AttributeError)"

text \<open>\<^verbatim>\<open>get_name(val)\<close>: \<^verbatim>\<open>id_to_str.get(val.as_long(), str(val))\<close>\<close>

definition get_name :: "kb \<Rightarrow> thing \<Rightarrow> string" where
  "get_name st v = (case id_to_str st (unat v) of Some s \<Rightarrow> s | None \<Rightarrow> str_nat (unat v))"

text \<open>
  Applying a relation symbol to Python arguments casts each to the bit-vector sort;
  \<^verbatim>\<open>None\<close> is no numeral and the Z3 binding raises.
\<close>

definition bv_cast :: "thing option \<Rightarrow> error + thing" where
  "bv_cast a = (case a of None \<Rightarrow> Inl Z3Exception | Some v \<Rightarrow> Inr v)"


section \<open>The loader\<close>

text \<open>
  A cell of the table, as \<^verbatim>\<open>row.get\<close> and \<^verbatim>\<open>ast.literal_eval\<close> deliver it: absent or
  empty (a false value, the cell is skipped), text that is no Python literal (the
  evaluation raises), or the value of the literal.
\<close>

datatype cell = Blank | Unparsable | Literal pyval

record row =
  row_name :: string
  row_symptoms :: cell
  row_treatments :: cell

text \<open>
  The body of \<^verbatim>\<open>for s in ...: fp.fact(has_symptom(disease_id, get_id(s))); all_symptoms.add(s)\<close>
  under its \<^verbatim>\<open>try ... except: pass\<close>: the first exception ends the loop and is dropped, what
  was done before it stays.  The argument \<^verbatim>\<open>get_id(s)\<close> is evaluated before the
  application casts its arguments.
\<close>

fun the_str :: "pyval \<Rightarrow> string" where
  "the_str (PStr s) = s"
| "the_str _ = []"

fun symptoms_loop :: "thing option \<Rightarrow> pyval list \<Rightarrow> kb \<Rightarrow> kb" where
  "symptoms_loop disease_id [] st = st"
| "symptoms_loop disease_id (s # ss) st =
     (case get_id s st of
        Inl e \<Rightarrow> st
      | Inr (s_id, st1) \<Rightarrow>
          (case bv_cast disease_id of
             Inl e \<Rightarrow> st1
           | Inr d \<Rightarrow>
               (case bv_cast s_id of
                  Inl e \<Rightarrow> st1
                | Inr sv \<Rightarrow>
                    symptoms_loop disease_id ss
                      (st1 \<lparr> has_symptom := has_symptom st1 @ [(d, sv)],
                             all_symptoms := insert (the_str s) (all_symptoms st1) \<rparr>))))"

fun treatments_loop :: "thing option \<Rightarrow> pyval list \<Rightarrow> kb \<Rightarrow> kb" where
  "treatments_loop disease_id [] st = st"
| "treatments_loop disease_id (t # ts) st =
     (case get_id t st of
        Inl e \<Rightarrow> st
      | Inr (t_id, st1) \<Rightarrow>
          (case bv_cast t_id of
             Inl e \<Rightarrow> st1
           | Inr tv \<Rightarrow>
               (case bv_cast disease_id of
                  Inl e \<Rightarrow> st1
                | Inr d \<Rightarrow>
                    treatments_loop disease_id ts
                      (st1 \<lparr> treated_with := treated_with st1 @ [(tv, d)] \<rparr>))))"

definition load_cell ::
  "(thing option \<Rightarrow> pyval list \<Rightarrow> kb \<Rightarrow> kb) \<Rightarrow> thing option \<Rightarrow> cell \<Rightarrow> kb \<Rightarrow> kb" where
  "load_cell loop disease_id c st =
     (case c of
        Blank \<Rightarrow> st
      | Unparsable \<Rightarrow> st
      | Literal v \<Rightarrow> (case py_iter v of Inl e \<Rightarrow> st | Inr xs \<Rightarrow> loop disease_id xs st))"

text \<open>
  One turn of \<^verbatim>\<open>for row in reader\<close>.  The call \<^verbatim>\<open>get_id(disease_name)\<close> stands outside
  every \<^verbatim>\<open>try\<close> but the one for the missing file, so an exception there would leave
  \<^verbatim>\<open>load_kb\<close>.
\<close>

definition load_row :: "row \<Rightarrow> kb \<Rightarrow> error + kb" where
  "load_row r st =
     (case get_id (PStr (row_name r)) st of
        Inl e \<Rightarrow> Inl e
      | Inr (disease_id, st1) \<Rightarrow>
          (let st2 = st1 \<lparr> all_diseases := insert (row_name r) (all_diseases st1) \<rparr>;
               st3 = load_cell symptoms_loop disease_id (row_symptoms r) st2
           in Inr (load_cell treatments_loop disease_id (row_treatments r) st3)))"

fun load_rows :: "row list \<Rightarrow> kb \<Rightarrow> error + kb" where
  "load_rows [] st = Inr st"
| "load_rows (r # rs) st =
     (case load_row r st of Inl e \<Rightarrow> Inl e | Inr st' \<Rightarrow> load_rows rs st')"

text \<open>
  \<^verbatim>\<open>load_kb\<close>: the file is either missing (\<^verbatim>\<open>FileNotFoundError\<close>, answered by a tuple of
  \<^verbatim>\<open>None\<close>) or gives its rows.  The rule for \<^verbatim>\<open>cures_symptom\<close> is the same on every run
  and is part of \<open>tuples\<close> below.
\<close>

definition load_kb :: "row list option \<Rightarrow> error + kb option" where
  "load_kb file =
     (case file of
        None \<Rightarrow> Inr None
      | Some rows \<Rightarrow> (case load_rows rows init_kb of Inl e \<Rightarrow> Inl e | Inr st \<Rightarrow> Inr (Some st)))"

text \<open>\<^verbatim>\<open>sorted(list(all_symptoms))\<close> and \<^verbatim>\<open>sorted(list(all_diseases))\<close>, the options of the two boxes.\<close>

definition symptoms :: "kb \<Rightarrow> string list" where
  "symptoms st = sorted_list_of_set (all_symptoms st)"

definition diseases :: "kb \<Rightarrow> string list" where
  "diseases st = sorted_list_of_set (all_diseases st)"


section \<open>The fixedpoint engine and the queries\<close>

text \<open>
  Z3's Datalog engine, as far as the script uses it.  Two relations hold the facts, the
  third is derived by the rule
  \<^verbatim>\<open>cures_symptom(t, s) :- treated_with(t, d), has_symptom(d, s)\<close>.
  A query with one variable and one numeral is satisfiable when some tuple matches, and
  the answer is then a formula over the variable that lists the matching values.
\<close>

datatype relation = Has_symptom | Treated_with | Cures_symptom

fun tuples :: "relation \<Rightarrow> kb \<Rightarrow> (thing \<times> thing) list" where
  "tuples Has_symptom st = has_symptom st"
| "tuples Treated_with st = treated_with st"
| "tuples Cures_symptom st =
     concat (map (\<lambda>(t, d). map (\<lambda>(d', s). (t, s)) (filter (\<lambda>(d', s). d' = d) (has_symptom st)))
                 (treated_with st))"

datatype side = First | Second

fun matching :: "side \<Rightarrow> thing \<Rightarrow> (thing \<times> thing) list \<Rightarrow> thing list" where
  "matching First c ts = map fst (filter (\<lambda>(x, y). y = c) ts)"
| "matching Second c ts = map snd (filter (\<lambda>(x, y). x = c) ts)"

datatype expr = BitVecNum thing | BoundVar nat | App string "expr list"

definition get_answer :: "thing list \<Rightarrow> expr" where
  "get_answer vs =
     (case remdups vs of
        [] \<Rightarrow> App ''false'' []
      | [v] \<Rightarrow> App ''='' [BoundVar 0, BitVecNum v]
      | ws \<Rightarrow> App ''or'' (map (\<lambda>v. App ''='' [BoundVar 0, BitVecNum v]) ws))"

text \<open>
  \<^verbatim>\<open>parse_results\<close>: every bit-vector numeral of the answer, by name, in a set; then
  sorted.
\<close>

fun collect :: "kb \<Rightarrow> expr \<Rightarrow> string set" where
  "collect st (BitVecNum v) = {get_name st v}"
| "collect st (BoundVar n) = {}"
| "collect st (App f es) = (\<Union>e \<in> set es. collect st e)"

definition parse_results :: "kb \<Rightarrow> expr \<Rightarrow> string list" where
  "parse_results st ans_obj = sorted_list_of_set (collect st ans_obj)"

text \<open>
  One \<^verbatim>\<open>fp.query\<close> of the script with what follows it: \<open>None\<close> for \<^verbatim>\<open>unsat\<close>, the
  parsed answer for \<^verbatim>\<open>sat\<close>.  The side is the position of the variable.
\<close>

definition run_query :: "relation \<Rightarrow> side \<Rightarrow> thing option \<Rightarrow> kb \<Rightarrow> error + string list option" where
  "run_query r sd a st =
     (case bv_cast a of
        Inl e \<Rightarrow> Inl e
      | Inr c \<Rightarrow>
          (let vs = matching sd c (tuples r st)
           in if vs \<noteq> [] then Inr (Some (parse_results st (get_answer vs))) else Inr None))"

text \<open>
  The four operations of the two tabs: \<^verbatim>\<open>get_id\<close> of the selected name, the query, and the
  list shown; nothing is shown for \<^verbatim>\<open>unsat\<close>.
\<close>

definition lookup :: "relation \<Rightarrow> side \<Rightarrow> pyval \<Rightarrow> kb \<Rightarrow> error + (string list \<times> kb)" where
  "lookup r sd selected st =
     (case get_id selected st of
        Inl e \<Rightarrow> Inl e
      | Inr (a, st1) \<Rightarrow>
          (case run_query r sd a st1 of
             Inl e \<Rightarrow> Inl e
           | Inr None \<Rightarrow> Inr ([], st1)
           | Inr (Some names) \<Rightarrow> Inr (names, st1)))"

definition diseasesWith :: "pyval \<Rightarrow> kb \<Rightarrow> error + (string list \<times> kb)" where
  "diseasesWith = lookup Has_symptom First"

definition treatmentsFor :: "pyval \<Rightarrow> kb \<Rightarrow> error + (string list \<times> kb)" where
  "treatmentsFor = lookup Cures_symptom First"

definition symptomsOf :: "pyval \<Rightarrow> kb \<Rightarrow> error + (string list \<times> kb)" where
  "symptomsOf = lookup Has_symptom Second"

definition treatmentsOf :: "pyval \<Rightarrow> kb \<Rightarrow> error + (string list \<times> kb)" where
  "treatmentsOf = lookup Treated_with First"


section \<open>The page\<close>

text \<open>
  What the script writes on the page, and its two buttons.  \<^verbatim>\<open>st.selectbox\<close> gives the
  selected option, a string, or \<^verbatim>\<open>None\<close> when nothing is selected.  An exception that
  leaves a button's block ends the run of the script.
\<close>

datatype ui_msg =
    St_divider
  | St_subheader string
  | St_error string
  | St_warning string
  | St_success string
  | St_info string
  | St_markdown string
  | St_write string

definition diagnose_problem :: "pyval \<Rightarrow> kb \<Rightarrow> error + (ui_msg list \<times> kb)" where
  "diagnose_problem selected_symptom st =
     (case get_id selected_symptom st of
        Inl e \<Rightarrow> Inl e
      | Inr (s_id, st1) \<Rightarrow>
          (case run_query Has_symptom First s_id st1 of
             Inl e \<Rightarrow> Inl e
           | Inr diag_result \<Rightarrow>
               (let diseases_found = (case diag_result of Some ds \<Rightarrow> ds | None \<Rightarrow> []);
                    diagnosis =
                      (case diag_result of
                         Some ds \<Rightarrow> map (\<lambda>d. St_error (''**Potential Cause:** '' @ d)) ds
                       | None \<Rightarrow> [St_warning ''Unknown disease.''])
                in if diseases_found \<noteq> []
                   then (case run_query Cures_symptom First s_id st1 of
                           Inl e \<Rightarrow> Inl e
                         | Inr None \<Rightarrow>
                             Inr (St_divider # diagnosis @ [St_info ''No cure found in database.''], st1)
                         | Inr (Some treatments) \<Rightarrow>
                             Inr (St_divider # diagnosis @
                                    [if treatments \<noteq> []
                                     then St_success (''**Recommended Treatments:** '' @ join '', '' treatments)
                                     else St_info ''No specific chemical treatment listed.''], st1))
                   else Inr (St_divider # diagnosis, st1))))"

definition get_info :: "pyval \<Rightarrow> kb \<Rightarrow> error + (ui_msg list \<times> kb)" where
  "get_info selected_disease st =
     (case get_id selected_disease st of
        Inl e \<Rightarrow> Inl e
      | Inr (d_id, st1) \<Rightarrow>
          (case run_query Has_symptom Second d_id st1 of
             Inl e \<Rightarrow> Inl e
           | Inr sym_result \<Rightarrow>
               (case run_query Treated_with First d_id st1 of
                  Inl e \<Rightarrow> Inl e
                | Inr treat_result \<Rightarrow>
                    Inr ([St_divider, St_subheader ''Symptoms''] @
                         (case sym_result of
                            Some found_symptoms \<Rightarrow> map (\<lambda>sym. St_markdown (''- '' @ sym)) found_symptoms
                          | None \<Rightarrow> [St_write ''No symptoms recorded.'']) @
                         [St_subheader ''Treatments''] @
                         (case treat_result of
                            Some found_treatments \<Rightarrow> map St_success found_treatments
                          | None \<Rightarrow> [St_warning ''No treatments recorded.'']), st1))))"

text \<open>
  One run of the script: \<^verbatim>\<open>load_kb()\<close>, then \<^verbatim>\<open>st.error\<close> and \<^verbatim>\<open>st.stop()\<close> when it gave
  no engine, else the block of the button that was pressed, if any.
\<close>

datatype action = No_click | Diagnose_problem pyval | Get_info pyval

datatype outcome = Stopped "ui_msg list" | Rendered "ui_msg list" | Raised error

definition app :: "row list option \<Rightarrow> action \<Rightarrow> outcome" where
  "app file act =
     (case load_kb file of
        Inl e \<Rightarrow> Raised e
      | Inr None \<Rightarrow> Stopped [St_error ''Error: 'macadamia.csv' file not found.'']
      | Inr (Some st) \<Rightarrow>
          (case act of
             No_click \<Rightarrow> Rendered []
           | Diagnose_problem selected_symptom \<Rightarrow>
               (case diagnose_problem selected_symptom st of
                  Inl e \<Rightarrow> Raised e
                | Inr (msgs, st') \<Rightarrow> Rendered msgs)
           | Get_info selected_disease \<Rightarrow>
               (case get_info selected_disease st of
                  Inl e \<Rightarrow> Raised e
                | Inr (msgs, st') \<Rightarrow> Rendered msgs)))"


section \<open>Names for the statements\<close>

text \<open>The four operations, each with the relation it asks and the position of its variable.\<close>

definition operations ::
  "((pyval \<Rightarrow> kb \<Rightarrow> error + (string list \<times> kb)) \<times> relation \<times> side) list" where
  "operations =
     [(symptomsOf, Has_symptom, Second), (treatmentsOf, Treated_with, First),
      (diseasesWith, Has_symptom, First), (treatmentsFor, Cures_symptom, First)]"

text \<open>The knowledge base a table loads to.\<close>

definition loaded :: "row list \<Rightarrow> kb" where
  "loaded rows = (case load_rows rows init_kb of Inr st \<Rightarrow> st | Inl e \<Rightarrow> init_kb)"

text \<open>The two rows of the specification's example.\<close>

definition example_rows :: "row list" where
  "example_rows =
     [\<lparr> row_name = ''Anthracnose'',
        row_symptoms = Literal (PList [PStr ''leaf spot'', PStr ''dieback'']),
        row_treatments = Literal (PList [PStr ''copper fungicide'']) \<rparr>,
      \<lparr> row_name = ''Husk Rot'',
        row_symptoms = Literal (PList [PStr ''leaf spot'']),
        row_treatments = Literal (PList [PStr ''fungicide X'']) \<rparr>]"

text \<open>A table whose disease name carries a trailing blank, as a cell of a CSV file may.\<close>

definition padded_rows :: "row list" where
  "padded_rows =
     [\<lparr> row_name = ''Husk Rot '',
        row_symptoms = Literal (PList [PStr ''leaf spot'']),
        row_treatments = Literal (PList [PStr ''fungicide X'']) \<rparr>]"

text \<open>
  A table whose disease name is quoted with a blank inside the quotes: cleaning it once
  leaves the blank, cleaning the result again removes it.
\<close>

definition quoted_rows :: "row list" where
  "quoted_rows =
     [\<lparr> row_name = CHR 0x27 # '' Husk Rot'' @ [CHR 0x27],
        row_symptoms = Literal (PList [PStr ''leaf spot'']),
        row_treatments = Literal (PList [PStr ''fungicide X'']) \<rparr>]"

text \<open>The list an operation shows; nothing when it raised.\<close>

definition names :: "error + (string list \<times> kb) \<Rightarrow> string list" where
  "names res = (case res of Inr (ns, st) \<Rightarrow> ns | Inl e \<Rightarrow> [])"

text \<open>The elements a loop of the loader gets past: strings that are not empty.\<close>

fun usable :: "pyval \<Rightarrow> bool" where
  "usable (PStr s) = (s \<noteq> [])"
| "usable _ = False"

text \<open>A table whose list of symptoms holds a string and then a number.\<close>

definition mixed_rows :: "row list" where
  "mixed_rows =
     [\<lparr> row_name = ''Husk Rot'',
        row_symptoms = Literal (PList [PStr ''leaf spot'', PInt 1, PStr ''dieback'']),
        row_treatments = Blank \<rparr>]"





section \<open>Invariants of the interning tables\<close>

definition ids_ok :: "kb \<Rightarrow> bool" where
  "ids_ok st \<longleftrightarrow>
     0 < counter st \<and>
     (\<forall>c v. str_to_id st c = Some v \<longrightarrow>
        (\<exists>n. 0 < n \<and> n < counter st \<and> v = word_of_nat n \<and> id_to_str st n = Some c)) \<and>
     (\<forall>n c. id_to_str st n = Some c \<longrightarrow>
        0 < n \<and> n < counter st \<and> str_to_id st c = Some (word_of_nat n))"

definition known :: "kb \<Rightarrow> thing set" where
  "known st = ran (str_to_id st)"

definition wf :: "kb \<Rightarrow> bool" where
  "wf st \<longleftrightarrow>
     ids_ok st \<and>
     (\<forall>(a, b) \<in> set (has_symptom st) \<union> set (treated_with st). a \<in> known st \<and> b \<in> known st) \<and>
     finite (all_symptoms st) \<and> finite (all_diseases st) \<and>
     (\<forall>s \<in> all_symptoms st. s \<noteq> [] \<and> str_to_id st (clean s) \<noteq> None) \<and>
     (\<forall>d \<in> all_diseases st. d = [] \<or> str_to_id st (clean d) \<noteq> None)"

text \<open>The names a query returns, in terms of the interned names.\<close>

definition answers :: "relation \<Rightarrow> side \<Rightarrow> string \<Rightarrow> kb \<Rightarrow> string set" where
  "answers r sd c st =
     {n. \<exists>x v. str_to_id st n = Some x \<and> str_to_id st c = Some v \<and>
                x \<in> set (matching sd v (tuples r st))}"


section \<open>Auxiliary lemmas\<close>

lemma get_id_PStr:
  "get_id (PStr s) st =
     (if s = [] then Inr (None, st)
      else Inr (str_to_id (intern (clean s) st) (clean s), intern (clean s) st))"
  by (simp add: get_id_def Let_def)

lemma get_id_falsy: "\<not> truthy v \<Longrightarrow> get_id v st = Inr (None, st)"
  by (simp add: get_id_def)

lemma get_id_cases:
  "get_id v st = Inl AttributeError \<or> get_id v st = Inr (None, st)
   \<or> (\<exists>s. v = PStr s \<and> s \<noteq> [] \<and>
        get_id v st = Inr (str_to_id (intern (clean s) st) (clean s), intern (clean s) st))"
  by (cases v) (auto simp: get_id_def Let_def)

lemma intern_id: "str_to_id (intern c st) c \<noteq> None"
  by (simp add: intern_def)

lemma intern_known: "str_to_id st c \<noteq> None \<Longrightarrow> intern c st = st"
  by (auto simp: intern_def)

lemma intern_fields [simp]:
  "has_symptom (intern c st) = has_symptom st"
  "treated_with (intern c st) = treated_with st"
  "all_symptoms (intern c st) = all_symptoms st"
  "all_diseases (intern c st) = all_diseases st"
  by (simp_all add: intern_def)

lemma intern_mono: "str_to_id st c' = Some v \<Longrightarrow> str_to_id (intern c st) c' = Some v"
  by (auto simp: intern_def)

lemma ids_ok_init: "ids_ok init_kb"
  by (simp add: ids_ok_def init_kb_def)

lemma ids_ok_intern:
  assumes "ids_ok st"
  shows "ids_ok (intern c st)"
proof (cases "str_to_id st c")
  case (Some v)
  then show ?thesis using assms by (simp add: intern_def)
next
  case None
  have fresh: "id_to_str st (counter st) = None"
  proof (cases "id_to_str st (counter st)")
    case (Some c')
    then have "counter st < counter st" using assms unfolding ids_ok_def by blast
    then show ?thesis by simp
  qed simp
  have key: "\<And>n c'. id_to_str st n = Some c' \<Longrightarrow> n \<noteq> counter st \<and> c' \<noteq> c"
    using assms None fresh by (fastforce simp: ids_ok_def)
  show ?thesis
    unfolding ids_ok_def
  proof (intro conjI allI impI)
    show "0 < counter (intern c st)" by (simp add: intern_def None)
  next
    fix c' v
    assume "str_to_id (intern c st) c' = Some v"
    then show "\<exists>n. 0 < n \<and> n < counter (intern c st) \<and> v = word_of_nat n \<and>
                   id_to_str (intern c st) n = Some c'"
      using assms None key
      by (fastforce simp: intern_def ids_ok_def split: if_splits)
  next
    fix n c'
    assume a: "id_to_str (intern c st) n = Some c'"
    show "0 < n" using a assms None by (auto simp: intern_def ids_ok_def split: if_splits)
    show "n < counter (intern c st)"
      using a assms None by (fastforce simp: intern_def ids_ok_def split: if_splits)
    show "str_to_id (intern c st) c' = Some (word_of_nat n)"
      using a assms None key by (auto simp: intern_def ids_ok_def split: if_splits)
  qed
qed


lemma known_intern: "known st \<subseteq> known (intern c st)"
  by (auto simp: known_def ran_def intro: intern_mono)

lemma known_intern_id: "str_to_id (intern c st) c = Some v \<Longrightarrow> v \<in> known (intern c st)"
  by (auto simp: known_def ran_def)

lemma intern_keeps: "str_to_id st c' \<noteq> None \<Longrightarrow> str_to_id (intern c st) c' \<noteq> None"
  using intern_mono by fastforce

lemma wf_init: "wf init_kb"
  by (simp add: wf_def ids_ok_init) (simp add: init_kb_def)

lemma wf_intern:
  assumes "wf st"
  shows "wf (intern c st)"
proof -
  have k: "\<And>a. a \<in> known st \<Longrightarrow> a \<in> known (intern c st)"
    using known_intern [of st c] by blast
  have f0: "\<forall>(a, b) \<in> set (has_symptom st) \<union> set (treated_with st). a \<in> known st \<and> b \<in> known st"
    and s0: "\<forall>s \<in> all_symptoms st. s \<noteq> [] \<and> str_to_id st (clean s) \<noteq> None"
    and d0: "\<forall>d \<in> all_diseases st. d = [] \<or> str_to_id st (clean d) \<noteq> None"
    and fin: "finite (all_symptoms st)" "finite (all_diseases st)"
    and ok: "ids_ok st"
    using assms by (simp_all add: wf_def)
  have facts: "\<forall>(a, b) \<in> set (has_symptom st) \<union> set (treated_with st).
                 a \<in> known (intern c st) \<and> b \<in> known (intern c st)"
  proof (clarify)
    fix a b
    assume "(a, b) \<in> set (has_symptom st) \<union> set (treated_with st)"
    with f0 have "a \<in> known st \<and> b \<in> known st" by blast
    with k show "a \<in> known (intern c st) \<and> b \<in> known (intern c st)" by blast
  qed
  have syms: "\<forall>s \<in> all_symptoms st. s \<noteq> [] \<and> str_to_id (intern c st) (clean s) \<noteq> None"
    using s0 intern_keeps [of st _ c] by blast
  have dis: "\<forall>d \<in> all_diseases st. d = [] \<or> str_to_id (intern c st) (clean d) \<noteq> None"
    using d0 intern_keeps [of st _ c] by blast
  show ?thesis
    unfolding wf_def using facts syms dis fin ok
    by (simp add: ids_ok_intern)
qed

lemma wf_add_symptom:
  assumes "wf st" "d \<in> known st" "sv \<in> known st" "raw \<noteq> []" "str_to_id st (clean raw) \<noteq> None"
  shows "wf (st \<lparr> has_symptom := has_symptom st @ [(d, sv)],
                 all_symptoms := insert raw (all_symptoms st) \<rparr>)"
  using assms by (auto simp: wf_def ids_ok_def known_def)

lemma wf_add_treatment:
  assumes "wf st" "d \<in> known st" "tv \<in> known st"
  shows "wf (st \<lparr> treated_with := treated_with st @ [(tv, d)] \<rparr>)"
  using assms by (auto simp: wf_def ids_ok_def known_def)

lemma wf_add_disease:
  assumes "wf st" "n = [] \<or> str_to_id st (clean n) \<noteq> None"
  shows "wf (st \<lparr> all_diseases := insert n (all_diseases st) \<rparr>)"
  using assms by (auto simp: wf_def ids_ok_def known_def)

lemma wf_symptoms_loop:
  "wf st \<Longrightarrow> (\<forall>d. disease_id = Some d \<longrightarrow> d \<in> known st) \<Longrightarrow> wf (symptoms_loop disease_id xs st)"
proof (induction xs arbitrary: st)
  case Nil
  then show ?case by simp
next
  case (Cons x xs)
  from get_id_cases [of x st] show ?case
  proof (elim disjE exE conjE)
    assume "get_id x st = Inl AttributeError"
    then show ?thesis using Cons.prems by simp
  next
    assume "get_id x st = Inr (None, st)"
    then show ?thesis using Cons.prems by (simp add: bv_cast_def split: option.splits)
  next
    fix s
    assume x: "x = PStr s" "s \<noteq> []"
      and g: "get_id x st = Inr (str_to_id (intern (clean s) st) (clean s), intern (clean s) st)"
    let ?st1 = "intern (clean s) st"
    obtain sv where sv: "str_to_id ?st1 (clean s) = Some sv"
      using intern_id [of "clean s" st] by auto
    have wf1: "wf ?st1" using Cons.prems(1) by (rule wf_intern)
    show ?thesis
    proof (cases disease_id)
      case None
      then show ?thesis using g wf1 by (simp add: bv_cast_def sv)
    next
      case (Some d)
      then have d: "d \<in> known ?st1" using Cons.prems(2) known_intern by blast
      let ?st2 = "?st1 \<lparr> has_symptom := has_symptom ?st1 @ [(d, sv)],
                          all_symptoms := insert s (all_symptoms ?st1) \<rparr>"
      have wf2: "wf ?st2"
        using wf1 d known_intern_id [OF sv] x(2) sv by (intro wf_add_symptom) auto
      have "\<forall>d'. disease_id = Some d' \<longrightarrow> d' \<in> known ?st2"
        using Some d by (simp add: known_def)
      from Cons.IH [OF wf2 this] show ?thesis
        using g Some sv x(1) by (simp add: bv_cast_def)
    qed
  qed
qed

lemma wf_treatments_loop:
  "wf st \<Longrightarrow> (\<forall>d. disease_id = Some d \<longrightarrow> d \<in> known st) \<Longrightarrow> wf (treatments_loop disease_id xs st)"
proof (induction xs arbitrary: st)
  case Nil
  then show ?case by simp
next
  case (Cons x xs)
  from get_id_cases [of x st] show ?case
  proof (elim disjE exE conjE)
    assume "get_id x st = Inl AttributeError"
    then show ?thesis using Cons.prems by simp
  next
    assume "get_id x st = Inr (None, st)"
    then show ?thesis using Cons.prems by (simp add: bv_cast_def split: option.splits)
  next
    fix s
    assume x: "x = PStr s" "s \<noteq> []"
      and g: "get_id x st = Inr (str_to_id (intern (clean s) st) (clean s), intern (clean s) st)"
    let ?st1 = "intern (clean s) st"
    obtain tv where tv: "str_to_id ?st1 (clean s) = Some tv"
      using intern_id [of "clean s" st] by auto
    have wf1: "wf ?st1" using Cons.prems(1) by (rule wf_intern)
    show ?thesis
    proof (cases disease_id)
      case None
      then show ?thesis using g wf1 by (simp add: bv_cast_def tv)
    next
      case (Some d)
      then have d: "d \<in> known ?st1" using Cons.prems(2) known_intern by blast
      let ?st2 = "?st1 \<lparr> treated_with := treated_with ?st1 @ [(tv, d)] \<rparr>"
      have wf2: "wf ?st2"
        using wf1 d known_intern_id [OF tv] by (intro wf_add_treatment) auto
      have "\<forall>d'. disease_id = Some d' \<longrightarrow> d' \<in> known ?st2"
        using Some d by (simp add: known_def)
      from Cons.IH [OF wf2 this] show ?thesis
        using g Some tv by (simp add: bv_cast_def)
    qed
  qed
qed

lemma wf_load_cell:
  assumes "\<And>xs st. wf st \<Longrightarrow> (\<forall>d. disease_id = Some d \<longrightarrow> d \<in> known st) \<Longrightarrow> wf (loop disease_id xs st)"
    and "wf st" "\<forall>d. disease_id = Some d \<longrightarrow> d \<in> known st"
  shows "wf (load_cell loop disease_id c st)"
  using assms by (auto simp: load_cell_def split: cell.splits sum.splits)

lemma symptoms_loop_mono:
  "str_to_id st c = Some v \<Longrightarrow> str_to_id (symptoms_loop disease_id xs st) c = Some v"
proof (induction xs arbitrary: st)
  case (Cons x xs)
  from get_id_cases [of x st] show ?case
  proof (elim disjE exE conjE)
    fix s
    assume g: "get_id x st = Inr (str_to_id (intern (clean s) st) (clean s), intern (clean s) st)"
    have m: "str_to_id (intern (clean s) st) c = Some v" using Cons.prems by (rule intern_mono)
    show ?thesis
      using g m Cons.IH by (auto simp: bv_cast_def split: option.splits)
  qed (use Cons.prems in \<open>auto simp: bv_cast_def split: option.splits\<close>)
qed simp

lemma treatments_loop_mono:
  "str_to_id st c = Some v \<Longrightarrow> str_to_id (treatments_loop disease_id xs st) c = Some v"
proof (induction xs arbitrary: st)
  case (Cons x xs)
  from get_id_cases [of x st] show ?case
  proof (elim disjE exE conjE)
    fix s
    assume g: "get_id x st = Inr (str_to_id (intern (clean s) st) (clean s), intern (clean s) st)"
    have m: "str_to_id (intern (clean s) st) c = Some v" using Cons.prems by (rule intern_mono)
    show ?thesis
      using g m Cons.IH by (auto simp: bv_cast_def split: option.splits)
  qed (use Cons.prems in \<open>auto simp: bv_cast_def split: option.splits\<close>)
qed simp

lemma load_cell_mono:
  "str_to_id st c = Some v \<Longrightarrow>
     str_to_id (load_cell symptoms_loop disease_id cl st) c = Some v \<and>
     str_to_id (load_cell treatments_loop disease_id cl st) c = Some v"
  by (auto simp: load_cell_def symptoms_loop_mono treatments_loop_mono
           split: cell.splits sum.splits)

lemma load_row_wf:
  assumes "wf st"
  shows "\<exists>st'. load_row r st = Inr st' \<and> wf st'"
proof -
  let ?n = "row_name r"
  define st1 where st1: "st1 = (if ?n = [] then st else intern (clean ?n) st)"
  define disease_id where did: "disease_id = (if ?n = [] then None else str_to_id st1 (clean ?n))"
  have g: "get_id (PStr ?n) st = Inr (disease_id, st1)"
    by (simp add: get_id_PStr st1 did)
  have wf1: "wf st1" using assms st1 by (simp add: wf_intern)
  have d1: "\<forall>d. disease_id = Some d \<longrightarrow> d \<in> known st1"
    using did st1 by (auto simp: known_def ran_def)
  let ?st2 = "st1 \<lparr> all_diseases := insert ?n (all_diseases st1) \<rparr>"
  have wf2: "wf ?st2"
    using wf1 st1 intern_id [of "clean ?n" st] by (intro wf_add_disease) auto
  have d2: "\<forall>d. disease_id = Some d \<longrightarrow> d \<in> known ?st2"
    using d1 by (simp add: known_def)
  let ?st3 = "load_cell symptoms_loop disease_id (row_symptoms r) ?st2"
  have wf3: "wf ?st3" using wf_symptoms_loop wf2 d2 by (rule wf_load_cell)
  have "known ?st2 \<subseteq> known ?st3"
    using load_cell_mono [of ?st2] by (fastforce simp: known_def ran_def)
  then have d3: "\<forall>d. disease_id = Some d \<longrightarrow> d \<in> known ?st3" using d2 by blast
  have "wf (load_cell treatments_loop disease_id (row_treatments r) ?st3)"
    using wf_treatments_loop wf3 d3 by (rule wf_load_cell)
  then show ?thesis using g by (simp add: load_row_def Let_def)
qed

lemma load_rows_wf: "wf st \<Longrightarrow> \<exists>st'. load_rows rs st = Inr st' \<and> wf st'"
proof (induction rs arbitrary: st)
  case (Cons r rs)
  from load_row_wf [OF Cons.prems, of r] obtain st1 where "load_row r st = Inr st1" "wf st1" by blast
  then show ?case using Cons.IH [of st1] by simp
qed simp


lemma collect_get_answer: "collect st (get_answer vs) = get_name st ` set vs"
proof (cases "remdups vs")
  case Nil
  then show ?thesis by (simp add: get_answer_def)
next
  case (Cons w ws)
  have "collect st (get_answer vs) = get_name st ` set (remdups vs)"
    by (cases ws) (auto simp: get_answer_def Cons)
  then show ?thesis by simp
qed



lemma lookup_PStr:
  assumes "s \<noteq> []"
  shows "\<exists>v. str_to_id (intern (clean s) st) (clean s) = Some v \<and>
           lookup r sd (PStr s) st =
             Inr (sorted_list_of_set
                    (get_name (intern (clean s) st) `
                       set (matching sd v (tuples r (intern (clean s) st)))),
                  intern (clean s) st)"
proof -
  obtain v where v: "str_to_id (intern (clean s) st) (clean s) = Some v"
    using intern_id [of "clean s" st] by auto
  show ?thesis
    using assms v
    by (auto simp: lookup_def get_id_PStr run_query_def bv_cast_def Let_def
                   parse_results_def collect_get_answer)
qed

lemma tuples_intern [simp]: "tuples r (intern c st) = tuples r st"
  by (cases r) simp_all

lemma name_of_id:
  assumes "ids_ok st" "counter st \<le> 2 ^ 32" "str_to_id st c = Some v"
  shows "get_name st v = c"
proof -
  from assms obtain n where n: "0 < n" "n < counter st" "v = word_of_nat n" "id_to_str st n = Some c"
    unfolding ids_ok_def by blast
  then have "unat v = n" using assms(2) by (simp add: unat_of_nat)
  then show ?thesis using n by (simp add: get_name_def)
qed


lemma fresh_id:
  assumes "ids_ok st" "counter st < 2 ^ 32"
  shows "word_of_nat (counter st) \<notin> known st"
proof
  assume "word_of_nat (counter st) \<in> known st"
  then obtain c where "str_to_id st c = Some (word_of_nat (counter st))"
    by (auto simp: known_def ran_def)
  with assms obtain n where n: "n < counter st" "(word_of_nat (counter st) :: thing) = word_of_nat n"
    unfolding ids_ok_def by blast
  then have "unat (word_of_nat (counter st) :: thing) = unat (word_of_nat n :: thing)" by simp
  then show False using n(1) assms(2) by (simp add: unat_of_nat)
qed

lemma tuples_known:
  assumes "wf st" "(a, b) \<in> set (tuples r st)"
  shows "a \<in> known st \<and> b \<in> known st"
  using assms by (cases r) (auto simp: wf_def)

lemma matching_known:
  assumes "wf st" "x \<in> set (matching sd c (tuples r st))"
  shows "x \<in> known st"
  using assms tuples_known [OF assms(1)] by (cases sd) auto

lemma matching_unknown:
  assumes "wf st" "c \<notin> known st"
  shows "matching sd c (tuples r st) = []"
proof -
  have "\<And>a b. (a, b) \<in> set (tuples r st) \<Longrightarrow> a \<noteq> c \<and> b \<noteq> c"
    using tuples_known [OF assms(1)] assms(2) by blast
  then show ?thesis by (cases sd) (auto simp: filter_empty_conv)
qed

lemma lookup_answers:
  assumes "wf st" "counter st < 2 ^ 32" "s \<noteq> []"
  shows "\<exists>res. lookup r sd (PStr s) st = Inr (res, intern (clean s) st) \<and>
               sorted res \<and> distinct res \<and> set res = answers r sd (clean s) st"
proof -
  let ?st1 = "intern (clean s) st"
  from lookup_PStr [OF assms(3), of st r sd] obtain v where
    v: "str_to_id ?st1 (clean s) = Some v" and
    l: "lookup r sd (PStr s) st =
          Inr (sorted_list_of_set (get_name ?st1 ` set (matching sd v (tuples r st))), ?st1)"
    by auto
  have ok: "ids_ok st" using assms(1) by (simp add: wf_def)
  have "get_name ?st1 ` set (matching sd v (tuples r st)) = answers r sd (clean s) st"
  proof (cases "str_to_id st (clean s)")
    case None
    then have "v = word_of_nat (counter st)" using v by (simp add: intern_def)
    then have "matching sd v (tuples r st) = []"
      using matching_unknown [OF assms(1)] fresh_id [OF ok assms(2)] by simp
    then show ?thesis using None by (simp add: answers_def)
  next
    case (Some w)
    then have same: "?st1 = st" by (simp add: intern_known)
    have le: "counter st \<le> 2 ^ 32" using assms(2) by simp
    show ?thesis
    proof (intro equalityI subsetI)
      fix n assume "n \<in> get_name ?st1 ` set (matching sd v (tuples r st))"
      then obtain x where x: "x \<in> set (matching sd v (tuples r st))" "n = get_name st x"
        using same by auto
      then have "x \<in> known st" using matching_known [OF assms(1)] by blast
      then obtain c where c: "str_to_id st c = Some x" by (auto simp: known_def ran_def)
      then have "n = c" using name_of_id [OF ok le c] x(2) by simp
      then show "n \<in> answers r sd (clean s) st"
        using c x(1) v same by (auto simp: answers_def)
    next
      fix n assume "n \<in> answers r sd (clean s) st"
      then obtain x where x: "str_to_id st n = Some x" "x \<in> set (matching sd v (tuples r st))"
        using v same by (auto simp: answers_def)
      then show "n \<in> get_name ?st1 ` set (matching sd v (tuples r st))"
        using name_of_id [OF ok le x(1)] same by force
    qed
  qed
  moreover from this have "finite (answers r sd (clean s) st)"
    by (metis finite_imageI finite_set)
  ultimately show ?thesis using l by simp
qed

lemma load_kb_Some: "load_kb (Some rows) = Inr (Some (loaded rows))"
  using load_rows_wf [OF wf_init, of rows] by (auto simp: load_kb_def loaded_def)

lemma wf_loaded: "wf (loaded rows)"
  using load_rows_wf [OF wf_init, of rows] by (auto simp: loaded_def)

lemma load_kb_wf: "load_kb (Some rows) = Inr (Some st) \<Longrightarrow> wf st"
  using wf_loaded [of rows] by (simp add: load_kb_Some)

lemma operations_lookup: "(q, r, sd) \<in> set operations \<Longrightarrow> q = lookup r sd"
  by (auto simp: operations_def symptomsOf_def treatmentsOf_def diseasesWith_def treatmentsFor_def)


lemma lookup_None: "\<not> truthy sel \<Longrightarrow> lookup r sd sel st = Inl Z3Exception"
  by (simp add: lookup_def get_id_falsy run_query_def bv_cast_def)

lemma set_cures:
  "set (tuples Cures_symptom st) =
     {(t, s). \<exists>d. (t, d) \<in> set (treated_with st) \<and> (d, s) \<in> set (has_symptom st)}"
proof -
  have "(t, s) \<in> set (tuples Cures_symptom st)"
    if "(t, d) \<in> set (treated_with st)" "(d, s) \<in> set (has_symptom st)" for t d s
    using that by (clarsimp, intro bexI [of _ "(t, d)"]) force+
  moreover have "\<exists>d. (t, d) \<in> set (treated_with st) \<and> (d, s) \<in> set (has_symptom st)"
    if "(t, s) \<in> set (tuples Cures_symptom st)" for t s
    using that by auto
  ultimately show ?thesis by blast
qed

lemma answers_First:
  "n \<in> answers r First c st \<longleftrightarrow>
     (\<exists>x v. str_to_id st n = Some x \<and> str_to_id st c = Some v \<and> (x, v) \<in> set (tuples r st))"
  by (force simp: answers_def)

lemma answers_Second:
  "n \<in> answers r Second c st \<longleftrightarrow>
     (\<exists>x v. str_to_id st n = Some x \<and> str_to_id st c = Some v \<and> (v, x) \<in> set (tuples r st))"
  by (force simp: answers_def)

lemma known_name: "x \<in> known st \<Longrightarrow> \<exists>n. str_to_id st n = Some x"
  by (auto simp: known_def ran_def)

lemma cures_join:
  assumes "wf st"
  shows "answers Cures_symptom First c st =
           (\<Union>d \<in> answers Has_symptom First c st. answers Treated_with First d st)"
proof (intro equalityI subsetI)
  fix n assume "n \<in> answers Cures_symptom First c st"
  then obtain x v dv where x: "str_to_id st n = Some x" "str_to_id st c = Some v"
    "(x, dv) \<in> set (treated_with st)" "(dv, v) \<in> set (has_symptom st)"
    unfolding answers_First set_cures by blast
  have "dv \<in> known st" using tuples_known [OF assms, of dv v Has_symptom] x(4) by simp
  then obtain d where d: "str_to_id st d = Some dv" using known_name by blast
  have "d \<in> answers Has_symptom First c st" unfolding answers_First using d x by auto
  moreover have "n \<in> answers Treated_with First d st" unfolding answers_First using d x by auto
  ultimately show "n \<in> (\<Union>d \<in> answers Has_symptom First c st. answers Treated_with First d st)"
    by blast
next
  fix n assume "n \<in> (\<Union>d \<in> answers Has_symptom First c st. answers Treated_with First d st)"
  then obtain d where d: "d \<in> answers Has_symptom First c st" "n \<in> answers Treated_with First d st"
    by blast
  from d(1) obtain dv v where a: "str_to_id st d = Some dv" "str_to_id st c = Some v"
    "(dv, v) \<in> set (has_symptom st)"
    unfolding answers_First by auto
  from d(2) a(1) obtain x where b: "str_to_id st n = Some x" "(x, dv) \<in> set (treated_with st)"
    unfolding answers_First by auto
  show "n \<in> answers Cures_symptom First c st"
    unfolding answers_First set_cures using a b by blast
qed





lemma get_id_unusable:
  "\<not> usable x \<Longrightarrow> get_id x st = Inl AttributeError \<or> get_id x st = Inr (None, st)"
  using get_id_cases [of x st] by auto

lemma get_id_usable:
  "usable x \<Longrightarrow>
     get_id x st = Inr (str_to_id (intern (clean (the_str x)) st) (clean (the_str x)),
                        intern (clean (the_str x)) st)"
  by (cases x) (simp_all add: get_id_PStr)

lemma symptoms_loop_unusable:
  "\<not> usable x \<Longrightarrow> symptoms_loop disease_id (x # xs) st = st"
  using get_id_unusable [of x st] by (auto simp: bv_cast_def split: option.splits)

lemma symptoms_loop_usable:
  assumes "usable x"
  shows "symptoms_loop (Some d) (x # xs) st =
           symptoms_loop (Some d) xs
             ((intern (clean (the_str x)) st)
                \<lparr> has_symptom := has_symptom st @
                     [(d, the (str_to_id (intern (clean (the_str x)) st) (clean (the_str x))))],
                  all_symptoms := insert (the_str x) (all_symptoms st) \<rparr>)"
proof -
  obtain v where "str_to_id (intern (clean (the_str x)) st) (clean (the_str x)) = Some v"
    using intern_id [of "clean (the_str x)" st] by auto
  then show ?thesis using get_id_usable [OF assms, of st] by (simp add: bv_cast_def)
qed

lemma symptoms_loop_usable_None:
  "usable x \<Longrightarrow> symptoms_loop None (x # xs) st = intern (clean (the_str x)) st"
  using get_id_usable [of x st] by (simp add: bv_cast_def split: option.splits)

lemma treatments_loop_unusable:
  "\<not> usable x \<Longrightarrow> treatments_loop disease_id (x # xs) st = st"
  using get_id_unusable [of x st] by (auto simp: bv_cast_def split: option.splits)

lemma treatments_loop_usable_None:
  "usable x \<Longrightarrow> treatments_loop None (x # xs) st = intern (clean (the_str x)) st"
  using get_id_usable [of x st] by (simp add: bv_cast_def split: option.splits)

lemma treatments_loop_usable:
  assumes "usable x"
  shows "treatments_loop (Some d) (x # xs) st =
           treatments_loop (Some d) xs
             ((intern (clean (the_str x)) st)
                \<lparr> treated_with := treated_with st @
                     [(the (str_to_id (intern (clean (the_str x)) st) (clean (the_str x))), d)] \<rparr>)"
proof -
  obtain v where "str_to_id (intern (clean (the_str x)) st) (clean (the_str x)) = Some v"
    using intern_id [of "clean (the_str x)" st] by auto
  then show ?thesis using get_id_usable [OF assms, of st] by (simp add: bv_cast_def)
qed


lemma symptoms_loop_other:
  "treated_with (symptoms_loop disease_id xs st) = treated_with st \<and>
   all_diseases (symptoms_loop disease_id xs st) = all_diseases st"
proof (induction xs arbitrary: st)
  case (Cons x xs)
  show ?case
  proof (cases "usable x")
    case False
    then show ?thesis by (simp add: symptoms_loop_unusable del: symptoms_loop.simps)
  next
    case True
    show ?thesis
    proof (cases disease_id)
      case None
      then show ?thesis using True
        by (simp add: symptoms_loop_usable_None del: symptoms_loop.simps)
    next
      case (Some d)
      then show ?thesis using True Cons.IH
        by (simp add: symptoms_loop_usable del: symptoms_loop.simps)
    qed
  qed
qed simp

lemma treatments_loop_other:
  "has_symptom (treatments_loop disease_id xs st) = has_symptom st \<and>
   all_symptoms (treatments_loop disease_id xs st) = all_symptoms st \<and>
   all_diseases (treatments_loop disease_id xs st) = all_diseases st"
proof (induction xs arbitrary: st)
  case (Cons x xs)
  show ?case
  proof (cases "usable x")
    case False
    then show ?thesis by (simp add: treatments_loop_unusable del: treatments_loop.simps)
  next
    case True
    show ?thesis
    proof (cases disease_id)
      case None
      then show ?thesis using True
        by (simp add: treatments_loop_usable_None del: treatments_loop.simps)
    next
      case (Some d)
      then show ?thesis using True Cons.IH
        by (simp add: treatments_loop_usable del: treatments_loop.simps)
    qed
  qed
qed simp

lemma load_cell_treatments_other:
  "has_symptom (load_cell treatments_loop disease_id c st) = has_symptom st \<and>
   all_symptoms (load_cell treatments_loop disease_id c st) = all_symptoms st \<and>
   all_diseases (load_cell treatments_loop disease_id c st) = all_diseases st"
  by (simp add: load_cell_def treatments_loop_other split: cell.splits sum.splits)

lemma load_cell_symptoms_other:
  "treated_with (load_cell symptoms_loop disease_id c st) = treated_with st \<and>
   all_diseases (load_cell symptoms_loop disease_id c st) = all_diseases st"
  by (simp add: load_cell_def symptoms_loop_other split: cell.splits sum.splits)

lemma symptoms_loop_Some:
  "all_symptoms (symptoms_loop (Some d) xs st) =
     all_symptoms st \<union> the_str ` set (takeWhile usable xs) \<and>
   has_symptom (symptoms_loop (Some d) xs st) =
     has_symptom st @
       map (\<lambda>x. (d, the (str_to_id (symptoms_loop (Some d) xs st) (clean (the_str x)))))
           (takeWhile usable xs)"
proof (induction xs arbitrary: st)
  case Nil
  then show ?case by simp
next
  case (Cons x xs)
  show ?case
  proof (cases "usable x")
    case False
    then show ?thesis by (simp add: symptoms_loop_unusable del: symptoms_loop.simps)
  next
    case True
    let ?c = "clean (the_str x)"
    let ?st1 = "intern ?c st"
    let ?st2 = "?st1 \<lparr> has_symptom := has_symptom st @ [(d, the (str_to_id ?st1 ?c))],
                        all_symptoms := insert (the_str x) (all_symptoms st) \<rparr>"
    let ?r = "symptoms_loop (Some d) xs ?st2"
    have step: "symptoms_loop (Some d) (x # xs) st = ?r"
      using True by (rule symptoms_loop_usable)
    obtain v where v: "str_to_id ?st1 ?c = Some v" using intern_id [of ?c st] by auto
    then have "str_to_id ?st2 ?c = Some v" by simp
    then have keep: "str_to_id ?r ?c = Some v" by (rule symptoms_loop_mono)
    show ?thesis
      unfolding step using Cons.IH [of ?st2] True v keep
      by (simp del: symptoms_loop.simps)
  qed
qed

lemma symptoms_loop_ids:
  "x \<in> set (takeWhile usable xs) \<Longrightarrow>
     str_to_id (symptoms_loop (Some d) xs st) (clean (the_str x)) \<noteq> None"
proof (induction xs arbitrary: st)
  case Nil
  then show ?case by simp
next
  case (Cons y ys)
  show ?case
  proof (cases "usable y")
    case False
    then show ?thesis using Cons.prems by simp
  next
    case True
    let ?c = "clean (the_str y)"
    let ?st2 = "(intern ?c st) \<lparr> has_symptom := has_symptom st @ [(d, the (str_to_id (intern ?c st) ?c))],
                                  all_symptoms := insert (the_str y) (all_symptoms st) \<rparr>"
    have step: "symptoms_loop (Some d) (y # ys) st = symptoms_loop (Some d) ys ?st2"
      using True by (rule symptoms_loop_usable)
    show ?thesis
    proof (cases "x = y")
      case True
      obtain v where "str_to_id (intern ?c st) ?c = Some v" using intern_id [of ?c st] by auto
      then have "str_to_id ?st2 ?c = Some v" by simp
      then have "str_to_id (symptoms_loop (Some d) ys ?st2) ?c = Some v"
        by (rule symptoms_loop_mono)
      then show ?thesis unfolding step using True by simp
    next
      case False
      then have "x \<in> set (takeWhile usable ys)" using Cons.prems \<open>usable y\<close> by simp
      from Cons.IH [OF this, of ?st2] show ?thesis unfolding step .
    qed
  qed
qed













section \<open>The claims\<close>

text \<open>
  C9.  For the empty or missing name (the empty string, or \<^verbatim>\<open>None\<close> when nothing is
  selected) \<^verbatim>\<open>get_id\<close> returns \<^verbatim>\<open>None\<close> and interns nothing, and each of the four
  operations, asked with it, raises the exception of the Z3 binding instead of returning
  an empty list; so does the script for either button.
\<close>

theorem empty_name_raises:
  "get_id PNone st = Inr (None, st) \<and> get_id (PStr []) st = Inr (None, st) \<and>
   diseasesWith PNone st = Inl Z3Exception \<and> diseasesWith (PStr []) st = Inl Z3Exception \<and>
   treatmentsFor PNone st = Inl Z3Exception \<and> treatmentsFor (PStr []) st = Inl Z3Exception \<and>
   symptomsOf PNone st = Inl Z3Exception \<and> symptomsOf (PStr []) st = Inl Z3Exception \<and>
   treatmentsOf PNone st = Inl Z3Exception \<and> treatmentsOf (PStr []) st = Inl Z3Exception \<and>
   app (Some rows) (Diagnose_problem PNone) = Raised Z3Exception \<and>
   app (Some rows) (Get_info PNone) = Raised Z3Exception"
  by (simp add: diseasesWith_def treatmentsFor_def symptomsOf_def treatmentsOf_def lookup_None
                get_id_falsy app_def load_kb_Some diagnose_problem_def get_info_def
                run_query_def bv_cast_def)


text \<open>
  C7.  On the two rows of the example, \<open>diseasesWith\<close> of \<^verbatim>\<open>leaf spot\<close> is Anthracnose and
  Husk Rot, and \<open>treatmentsFor\<close> of \<^verbatim>\<open>leaf spot\<close> is copper fungicide and fungicide X; the
  button of the first tab shows just these.
\<close>

theorem example_leaf_spot:
  "(case load_kb (Some example_rows) of
      Inr (Some st) \<Rightarrow>
        map_sum id fst (diseasesWith (PStr ''leaf spot'') st) = Inr [''Anthracnose'', ''Husk Rot''] \<and>
        map_sum id fst (treatmentsFor (PStr ''leaf spot'') st) =
          Inr [''copper fungicide'', ''fungicide X'']
    | _ \<Rightarrow> False) \<and>
   app (Some example_rows) (Diagnose_problem (PStr ''leaf spot'')) =
     Rendered [St_divider,
               St_error ''**Potential Cause:** Anthracnose'',
               St_error ''**Potential Cause:** Husk Rot'',
               St_success ''**Recommended Treatments:** copper fungicide, fungicide X'']"
  by code_simp



text \<open>
  C5, as stated, fails: the empty string is a name that was never registered, and each of
  the four operations raises on it.
\<close>

theorem unknown_name_counterexample:
  "(case load_kb (Some example_rows) of
      Inr (Some st) \<Rightarrow>
        str_to_id st (clean []) = None \<and>
        map_sum id fst (symptomsOf (PStr []) st) = Inl Z3Exception \<and>
        map_sum id fst (treatmentsOf (PStr []) st) = Inl Z3Exception \<and>
        map_sum id fst (diseasesWith (PStr []) st) = Inl Z3Exception \<and>
        map_sum id fst (treatmentsFor (PStr []) st) = Inl Z3Exception
    | _ \<Rightarrow> False)"
  by code_simp

text \<open>
  C5, amended.  After a load that interned fewer than \<open>2 ^ 32\<close> names, each of the four
  operations, asked with a name that is not empty and whose cleaned form was not registered
  at load time, returns the empty list and raises nothing.
\<close>

theorem unknown_name_empty:
  assumes "load_kb (Some rows) = Inr (Some st)" and "counter st < 2 ^ 32"
    and "name \<noteq> []" and "str_to_id st (clean name) = None"
    and "(q, r, sd) \<in> set operations"
  shows "\<exists>st'. q (PStr name) st = Inr ([], st')"
proof -
  have q: "q = lookup r sd" using assms(5) by (rule operations_lookup)
  from lookup_answers [OF load_kb_wf [OF assms(1)] assms(2,3), of r sd]
  obtain res where "lookup r sd (PStr name) st = Inr (res, intern (clean name) st)"
    and "set res = answers r sd (clean name) st" by blast
  moreover have "answers r sd (clean name) st = {}" using assms(4) by (simp add: answers_def)
  ultimately show ?thesis using q by auto
qed

theorem unknown_name_empty_witness:
  "load_kb (Some example_rows) = Inr (Some (loaded example_rows)) \<and>
   counter (loaded example_rows) < 2 ^ 32 \<and> ''rust'' \<noteq> [] \<and>
   str_to_id (loaded example_rows) (clean ''rust'') = None \<and>
   (treatmentsFor, Cures_symptom, First) \<in> set operations \<and>
   (\<exists>st'. treatmentsFor (PStr ''rust'') (loaded example_rows) = Inr ([], st'))"
proof -
  have h1: "load_kb (Some example_rows) = Inr (Some (loaded example_rows))" by (rule load_kb_Some)
  have "counter (loaded example_rows) = 7" by code_simp
  then have h2: "counter (loaded example_rows) < 2 ^ 32" by simp
  have h3: "''rust'' \<noteq> []" by simp
  have h4: "str_to_id (loaded example_rows) (clean ''rust'') = None" by code_simp
  have h5: "(treatmentsFor, Cures_symptom, First) \<in> set operations" by (simp add: operations_def)
  from unknown_name_empty [OF h1 h2 h3 h4 h5] h1 h2 h3 h4 h5 show ?thesis by blast
qed

text \<open>
  C1, as stated, fails for a name that the loader cleans: the table's disease name
  \<^verbatim>\<open>Husk Rot\<close> with a trailing blank is offered in the disease box as it stands, its
  symptoms contain \<^verbatim>\<open>leaf spot\<close>, but the diseases with \<^verbatim>\<open>leaf spot\<close> contain the cleaned
  name only.
\<close>

theorem join_symmetry_counterexample:
  "(case load_kb (Some padded_rows) of
      Inr (Some st) \<Rightarrow>
        (case (diseasesWith (PStr ''leaf spot'') st, symptomsOf (PStr ''Husk Rot '') st) of
           (Inr (ds, st1), Inr (ss, st2)) \<Rightarrow>
             ''Husk Rot '' \<in> set (diseases st) \<and> ''leaf spot'' \<in> set (symptoms st) \<and>
             ds = [''Husk Rot''] \<and> ss = [''leaf spot''] \<and>
             \<not> (''Husk Rot '' \<in> set ds \<longleftrightarrow> ''leaf spot'' \<in> set ss)
         | _ \<Rightarrow> False)
    | _ \<Rightarrow> False)"
  by code_simp

text \<open>
  C1, amended.  After a load that interned fewer than \<open>2 ^ 32\<close> names, for all non-empty
  names \<open>s\<close> and \<open>d\<close> both operations return, and the cleaned form of \<open>d\<close> is among the
  diseases with \<open>s\<close> if and only if the cleaned form of \<open>s\<close> is among the symptoms of \<open>d\<close>:
  both are the same fact of \<open>has_symptom\<close>.
\<close>

theorem join_symmetry_cleaned:
  assumes "load_kb (Some rows) = Inr (Some st)" and "counter st < 2 ^ 32"
    and "s \<noteq> []" and "d \<noteq> []"
  shows "\<exists>ds st1 ss st2.
           diseasesWith (PStr s) st = Inr (ds, st1) \<and> symptomsOf (PStr d) st = Inr (ss, st2) \<and>
           (clean d \<in> set ds \<longleftrightarrow> clean s \<in> set ss) \<and>
           (clean d \<in> set ds \<longleftrightarrow>
              (\<exists>dv sv. str_to_id st (clean d) = Some dv \<and> str_to_id st (clean s) = Some sv \<and>
                       (dv, sv) \<in> set (has_symptom st)))"
proof -
  have wf: "wf st" using assms(1) by (rule load_kb_wf)
  from lookup_answers [OF wf assms(2,3), of Has_symptom First]
  obtain ds where ds: "diseasesWith (PStr s) st = Inr (ds, intern (clean s) st)"
    "set ds = answers Has_symptom First (clean s) st"
    by (auto simp: diseasesWith_def)
  from lookup_answers [OF wf assms(2,4), of Has_symptom Second]
  obtain ss where ss: "symptomsOf (PStr d) st = Inr (ss, intern (clean d) st)"
    "set ss = answers Has_symptom Second (clean d) st"
    by (auto simp: symptomsOf_def)
  have a: "clean d \<in> set ds \<longleftrightarrow>
             (\<exists>dv sv. str_to_id st (clean d) = Some dv \<and> str_to_id st (clean s) = Some sv \<and>
                      (dv, sv) \<in> set (has_symptom st))"
    unfolding ds(2) by (force simp: answers_def)
  have b: "clean s \<in> set ss \<longleftrightarrow>
             (\<exists>dv sv. str_to_id st (clean d) = Some dv \<and> str_to_id st (clean s) = Some sv \<and>
                      (dv, sv) \<in> set (has_symptom st))"
    unfolding ss(2) by (force simp: answers_def)
  show ?thesis using ds(1) ss(1) a b by blast
qed

theorem join_symmetry_cleaned_witness:
  "load_kb (Some padded_rows) = Inr (Some (loaded padded_rows)) \<and>
   counter (loaded padded_rows) < 2 ^ 32 \<and> ''leaf spot'' \<noteq> [] \<and> ''Husk Rot '' \<noteq> [] \<and>
   (\<exists>ds st1 ss st2.
      diseasesWith (PStr ''leaf spot'') (loaded padded_rows) = Inr (ds, st1) \<and>
      symptomsOf (PStr ''Husk Rot '') (loaded padded_rows) = Inr (ss, st2) \<and>
      ''Husk Rot'' \<in> set ds \<and> ''leaf spot'' \<in> set ss)"
proof -
  have h1: "load_kb (Some padded_rows) = Inr (Some (loaded padded_rows))" by (rule load_kb_Some)
  have "counter (loaded padded_rows) = 4" by code_simp
  then have h2: "counter (loaded padded_rows) < 2 ^ 32" by simp
  have h3: "''leaf spot'' \<noteq> []" and h4: "''Husk Rot '' \<noteq> []" by simp_all
  have c: "clean ''Husk Rot '' = ''Husk Rot''" "clean ''leaf spot'' = ''leaf spot''" by code_simp+
  have f: "\<exists>dv sv. str_to_id (loaded padded_rows) ''Husk Rot'' = Some dv \<and>
                   str_to_id (loaded padded_rows) ''leaf spot'' = Some sv \<and>
                   (dv, sv) \<in> set (has_symptom (loaded padded_rows))"
  proof -
    have "str_to_id (loaded padded_rows) ''Husk Rot'' = Some 1 \<and>
          str_to_id (loaded padded_rows) ''leaf spot'' = Some 2 \<and>
          (1, 2) \<in> set (has_symptom (loaded padded_rows))"
      by code_simp
    then show ?thesis by blast
  qed
  from join_symmetry_cleaned [OF h1 h2 h3 h4] f h1 h2 h3 h4 show ?thesis
    unfolding c by blast
qed

text \<open>
  C2, as stated, fails when a disease name in the result is changed by cleaning it again:
  for the quoted name, \<open>treatmentsFor\<close> of \<^verbatim>\<open>leaf spot\<close> is fungicide X, but
  \<open>treatmentsOf\<close> of the one disease with \<^verbatim>\<open>leaf spot\<close>, asked by the name that
  \<open>diseasesWith\<close> returned, is empty.
\<close>

theorem treatments_union_counterexample:
  "(case load_kb (Some quoted_rows) of
      Inr (Some st) \<Rightarrow>
        names (treatmentsFor (PStr ''leaf spot'') st) = [''fungicide X''] \<and>
        names (diseasesWith (PStr ''leaf spot'') st) = ['' Husk Rot''] \<and>
        map_sum id fst (treatmentsOf (PStr '' Husk Rot'') st) = Inr [] \<and>
        names (treatmentsFor (PStr ''leaf spot'') st) \<noteq>
          sort (remdups (concat (map (\<lambda>d. names (treatmentsOf (PStr d) st))
                                     (names (diseasesWith (PStr ''leaf spot'') st)))))
    | _ \<Rightarrow> False)"
  by code_simp

text \<open>
  C2, amended.  After a load that interned fewer than \<open>2 ^ 32\<close> names, for every non-empty
  symptom name \<open>s\<close>, a treatment is in \<open>treatmentsFor s\<close> if and only if it treats some
  disease that has the symptom \<open>s\<close>; and when every name in \<open>diseasesWith s\<close> is non-empty
  and unchanged by cleaning, \<open>treatmentsFor s\<close> is the sorted list without duplicates of
  the union of \<open>treatmentsOf d\<close> over the diseases \<open>d\<close> in \<open>diseasesWith s\<close>.
\<close>

theorem treatments_union:
  assumes "load_kb (Some rows) = Inr (Some st)" and "counter st < 2 ^ 32" and "s \<noteq> []"
  shows "\<exists>ts ds st1.
           treatmentsFor (PStr s) st = Inr (ts, st1) \<and> diseasesWith (PStr s) st = Inr (ds, st1) \<and>
           (\<forall>t. t \<in> set ts \<longleftrightarrow>
                (\<exists>tv dv sv. str_to_id st t = Some tv \<and> str_to_id st (clean s) = Some sv \<and>
                   (tv, dv) \<in> set (treated_with st) \<and> (dv, sv) \<in> set (has_symptom st))) \<and>
           ((\<forall>d \<in> set ds. d \<noteq> [] \<and> clean d = d) \<longrightarrow>
              (\<forall>d \<in> set ds. \<exists>r st2. treatmentsOf (PStr d) st = Inr (r, st2)) \<and>
              ts = sort (remdups (concat (map (\<lambda>d. names (treatmentsOf (PStr d) st)) ds))))"
proof -
  have wf: "wf st" using assms(1) by (rule load_kb_wf)
  let ?c = "clean s"
  from lookup_answers [OF wf assms(2,3), of Cures_symptom First]
  obtain ts where ts: "treatmentsFor (PStr s) st = Inr (ts, intern ?c st)"
    "sorted ts" "distinct ts" "set ts = answers Cures_symptom First ?c st"
    by (auto simp: treatmentsFor_def)
  from lookup_answers [OF wf assms(2,3), of Has_symptom First]
  obtain ds where ds: "diseasesWith (PStr s) st = Inr (ds, intern ?c st)"
    "set ds = answers Has_symptom First ?c st"
    by (auto simp: diseasesWith_def)
  have rel: "\<forall>t. t \<in> set ts \<longleftrightarrow>
                (\<exists>tv dv sv. str_to_id st t = Some tv \<and> str_to_id st ?c = Some sv \<and>
                   (tv, dv) \<in> set (treated_with st) \<and> (dv, sv) \<in> set (has_symptom st))"
    unfolding ts(4) answers_First set_cures by blast
  have un: "(\<forall>d \<in> set ds. \<exists>r st2. treatmentsOf (PStr d) st = Inr (r, st2)) \<and>
            ts = sort (remdups (concat (map (\<lambda>d. names (treatmentsOf (PStr d) st)) ds)))"
    if stable: "\<forall>d \<in> set ds. d \<noteq> [] \<and> clean d = d"
  proof -
    have each: "\<exists>r. treatmentsOf (PStr d) st = Inr (r, intern d st) \<and>
                    set r = answers Treated_with First d st" if "d \<in> set ds" for d
    proof -
      from stable that have d: "d \<noteq> []" "clean d = d" by auto
      from lookup_answers [OF wf assms(2) d(1), of Treated_with First]
      show ?thesis unfolding treatmentsOf_def d(2) by blast
    qed
    then have ret: "\<forall>d \<in> set ds. \<exists>r st2. treatmentsOf (PStr d) st = Inr (r, st2)" by blast
    have "set (names (treatmentsOf (PStr d) st)) = answers Treated_with First d st"
      if "d \<in> set ds" for d
    proof -
      from each [OF that] obtain r where "treatmentsOf (PStr d) st = Inr (r, intern d st)"
        "set r = answers Treated_with First d st" by blast
      then show ?thesis by (simp add: names_def)
    qed
    then have "set (concat (map (\<lambda>d. names (treatmentsOf (PStr d) st)) ds)) =
                 (\<Union>d \<in> set ds. answers Treated_with First d st)"
      by simp
    also have "\<dots> = set ts" unfolding ts(4) ds(2) cures_join [OF wf] ..
    finally have "set (sort (remdups (concat (map (\<lambda>d. names (treatmentsOf (PStr d) st)) ds)))) = set ts"
      by simp
    then have "ts = sort (remdups (concat (map (\<lambda>d. names (treatmentsOf (PStr d) st)) ds)))"
      using ts(2,3) by (intro sorted_distinct_set_unique) simp_all
    with ret show ?thesis by blast
  qed
  show ?thesis using ts(1) ds(1) rel un by blast
qed

theorem treatments_union_witness:
  "load_kb (Some example_rows) = Inr (Some (loaded example_rows)) \<and>
   counter (loaded example_rows) < 2 ^ 32 \<and> ''leaf spot'' \<noteq> [] \<and>
   names (diseasesWith (PStr ''leaf spot'') (loaded example_rows)) = [''Anthracnose'', ''Husk Rot''] \<and>
   clean ''Anthracnose'' = ''Anthracnose'' \<and> clean ''Husk Rot'' = ''Husk Rot'' \<and>
   names (treatmentsFor (PStr ''leaf spot'') (loaded example_rows)) =
     sort (remdups (names (treatmentsOf (PStr ''Anthracnose'') (loaded example_rows)) @
                    names (treatmentsOf (PStr ''Husk Rot'') (loaded example_rows))))"
proof -
  have h1: "load_kb (Some example_rows) = Inr (Some (loaded example_rows))" by (rule load_kb_Some)
  have "counter (loaded example_rows) = 7" by code_simp
  then have h2: "counter (loaded example_rows) < 2 ^ 32" by simp
  have h3: "''leaf spot'' \<noteq> []" by simp
  have dn: "names (diseasesWith (PStr ''leaf spot'') (loaded example_rows)) =
              [''Anthracnose'', ''Husk Rot'']"
    by code_simp
  have cl: "clean ''Anthracnose'' = ''Anthracnose''" "clean ''Husk Rot'' = ''Husk Rot''"
    by code_simp+
  from treatments_union [OF h1 h2 h3] obtain ts ds st1 where
    t: "treatmentsFor (PStr ''leaf spot'') (loaded example_rows) = Inr (ts, st1)"
       "diseasesWith (PStr ''leaf spot'') (loaded example_rows) = Inr (ds, st1)"
       "(\<forall>d \<in> set ds. d \<noteq> [] \<and> clean d = d) \<longrightarrow>
          ts = sort (remdups (concat (map (\<lambda>d. names (treatmentsOf (PStr d) (loaded example_rows))) ds)))"
    by blast
  have ds: "ds = [''Anthracnose'', ''Husk Rot'']" using dn t(2) by (simp add: names_def)
  have "\<forall>d \<in> set ds. d \<noteq> [] \<and> clean d = d" unfolding ds using cl by simp
  with t(3) have "ts = sort (remdups (concat (map (\<lambda>d. names (treatmentsOf (PStr d) (loaded example_rows))) ds)))"
    by blast
  then have "names (treatmentsFor (PStr ''leaf spot'') (loaded example_rows)) =
     sort (remdups (names (treatmentsOf (PStr ''Anthracnose'') (loaded example_rows)) @
                    names (treatmentsOf (PStr ''Husk Rot'') (loaded example_rows))))"
    unfolding ds using t(1) by (simp add: names_def)
  then show ?thesis using h1 h2 h3 dn cl by blast
qed




text \<open>
  C3, as stated, fails for a cell that is a list but not a list of strings: the loop
  records every element before the first one it cannot use.  The row below has a number
  in the second place; its first symptom is recorded, the third is not.
\<close>

theorem malformed_cell_counterexample:
  "(case load_kb (Some mixed_rows) of
      Inr (Some st) \<Rightarrow>
        symptoms st = [''leaf spot''] \<and> diseases st = [''Husk Rot''] \<and>
        has_symptom st = [(1, 2)] \<and>
        names (symptomsOf (PStr ''Husk Rot'') st) = [''leaf spot'']
    | _ \<Rightarrow> False)"
  by code_simp

text \<open>
  C3, amended.  Every row is loaded without an error and its disease name is registered:
  added to the set of diseases and, unless empty, interned.  When the symptoms cell is
  absent, is no parsable literal or is a literal that cannot be iterated, the row records
  no symptom.  When the cell can be iterated and the disease name is not empty, the row
  records exactly the elements before the first one that is not a non-empty string, in
  their raw form in the set of symptoms and as facts of \<open>has_symptom\<close>; what follows that
  element is dropped.
\<close>

theorem malformed_symptoms_cell:
  "\<exists>st'. load_row r st = Inr st' \<and> row_name r \<in> all_diseases st' \<and>
     (row_name r \<noteq> [] \<longrightarrow> str_to_id st' (clean (row_name r)) \<noteq> None) \<and>
     (case row_symptoms r of
        Literal v \<Rightarrow>
          (case py_iter v of
             Inr xs \<Rightarrow>
               row_name r \<noteq> [] \<longrightarrow>
                 all_symptoms st' = all_symptoms st \<union> the_str ` set (takeWhile usable xs) \<and>
                 has_symptom st' =
                   has_symptom st @
                     map (\<lambda>x. (the (str_to_id st' (clean (row_name r))),
                               the (str_to_id st' (clean (the_str x)))))
                         (takeWhile usable xs)
           | Inl e \<Rightarrow> has_symptom st' = has_symptom st \<and> all_symptoms st' = all_symptoms st)
      | _ \<Rightarrow> has_symptom st' = has_symptom st \<and> all_symptoms st' = all_symptoms st)"
proof -
  let ?n = "row_name r"
  define st1 where "st1 = (if ?n = [] then st else intern (clean ?n) st)"
  define disease_id where "disease_id = (if ?n = [] then None else str_to_id st1 (clean ?n))"
  define st2 where "st2 = st1 \<lparr> all_diseases := insert ?n (all_diseases st1) \<rparr>"
  define st3 where "st3 = load_cell symptoms_loop disease_id (row_symptoms r) st2"
  define st4 where "st4 = load_cell treatments_loop disease_id (row_treatments r) st3"
  have g: "get_id (PStr ?n) st = Inr (disease_id, st1)"
    by (simp add: get_id_PStr st1_def disease_id_def)
  have row: "load_row r st = Inr st4"
    using g by (simp add: load_row_def Let_def st2_def st3_def st4_def)
  have f2: "has_symptom st2 = has_symptom st" "all_symptoms st2 = all_symptoms st"
    by (simp_all add: st2_def st1_def)
  have f4: "has_symptom st4 = has_symptom st3" "all_symptoms st4 = all_symptoms st3"
    "all_diseases st4 = all_diseases st3"
    using load_cell_treatments_other [of disease_id "row_treatments r" st3]
    by (simp_all add: st4_def)
  have "all_diseases st3 = all_diseases st2"
    using load_cell_symptoms_other [of disease_id "row_symptoms r" st2] by (simp add: st3_def)
  then have dis: "?n \<in> all_diseases st4" using f4(3) by (simp add: st2_def)
  have mono34: "\<And>c v. str_to_id st3 c = Some v \<Longrightarrow> str_to_id st4 c = Some v"
    unfolding st4_def using load_cell_mono by blast
  have mono23: "\<And>c v. str_to_id st2 c = Some v \<Longrightarrow> str_to_id st3 c = Some v"
    unfolding st3_def using load_cell_mono by blast
  have reg: "str_to_id st4 (clean ?n) = disease_id \<and> disease_id \<noteq> None" if "?n \<noteq> []"
  proof -
    have "st1 = intern (clean ?n) st" using that by (simp add: st1_def)
    then obtain d where d: "str_to_id st1 (clean ?n) = Some d"
      using intern_id [of "clean ?n" st] by auto
    then have "str_to_id st2 (clean ?n) = Some d" by (simp add: st2_def)
    then have "str_to_id st4 (clean ?n) = Some d" using mono23 mono34 by blast
    then show ?thesis using d that by (simp add: disease_id_def)
  qed
  have cellcase:
    "case row_symptoms r of
        Literal v \<Rightarrow>
          (case py_iter v of
             Inr xs \<Rightarrow>
               ?n \<noteq> [] \<longrightarrow>
                 all_symptoms st4 = all_symptoms st \<union> the_str ` set (takeWhile usable xs) \<and>
                 has_symptom st4 =
                   has_symptom st @
                     map (\<lambda>x. (the (str_to_id st4 (clean ?n)),
                               the (str_to_id st4 (clean (the_str x)))))
                         (takeWhile usable xs)
           | Inl e \<Rightarrow> has_symptom st4 = has_symptom st \<and> all_symptoms st4 = all_symptoms st)
      | _ \<Rightarrow> has_symptom st4 = has_symptom st \<and> all_symptoms st4 = all_symptoms st"
  proof (cases "row_symptoms r")
    case Blank
    then show ?thesis using f2 f4 by (simp add: st3_def load_cell_def)
  next
    case Unparsable
    then show ?thesis using f2 f4 by (simp add: st3_def load_cell_def)
  next
    case (Literal v)
    show ?thesis
    proof (cases "py_iter v")
      case (Inl e)
      then show ?thesis using Literal f2 f4 by (simp add: st3_def load_cell_def)
    next
      case (Inr xs)
      have "all_symptoms st4 = all_symptoms st \<union> the_str ` set (takeWhile usable xs) \<and>
            has_symptom st4 =
              has_symptom st @
                map (\<lambda>x. (the (str_to_id st4 (clean ?n)), the (str_to_id st4 (clean (the_str x)))))
                    (takeWhile usable xs)"
        if ne: "?n \<noteq> []"
      proof -
        from reg [OF ne] obtain d where d: "disease_id = Some d" "str_to_id st4 (clean ?n) = Some d"
          by auto
        have st3: "st3 = symptoms_loop (Some d) xs st2"
          using Literal Inr d(1) by (simp add: st3_def load_cell_def)
        have ids: "the (str_to_id st3 (clean (the_str x))) = the (str_to_id st4 (clean (the_str x)))"
          if "x \<in> set (takeWhile usable xs)" for x
        proof -
          have "(d, the (str_to_id st3 (clean (the_str x)))) \<in> set (has_symptom st3)"
            using symptoms_loop_Some [of d xs st2] that unfolding st3 by simp
          moreover have "str_to_id st3 (clean (the_str x)) \<noteq> None"
            unfolding st3 using that by (rule symptoms_loop_ids)
          ultimately show ?thesis using mono34 by fastforce
        qed
        have "has_symptom st3 =
                has_symptom st2 @
                  map (\<lambda>x. (d, the (str_to_id st3 (clean (the_str x))))) (takeWhile usable xs)"
          and a3: "all_symptoms st3 = all_symptoms st2 \<union> the_str ` set (takeWhile usable xs)"
          using symptoms_loop_Some [of d xs st2] unfolding st3 by simp_all
        then have "has_symptom st3 =
                has_symptom st2 @
                  map (\<lambda>x. (d, the (str_to_id st4 (clean (the_str x))))) (takeWhile usable xs)"
          using ids by (simp cong: map_cong)
        then show ?thesis using a3 f2 f4 d(2) by simp
      qed
      then show ?thesis using Literal Inr by simp
    qed
  qed
  show ?thesis
    using row dis reg cellcase by (intro exI [of _ st4]) auto
qed

theorem malformed_symptoms_cell_witness:
  "(\<exists>st'. load_row \<lparr> row_name = ''Husk Rot'',
                      row_symptoms = Literal (PList [PStr ''leaf spot'', PInt 1, PStr ''dieback'']),
                      row_treatments = Blank \<rparr> init_kb = Inr st' \<and>
          ''Husk Rot'' \<in> all_diseases st' \<and> str_to_id st' (clean ''Husk Rot'') \<noteq> None \<and>
          all_symptoms st' = {''leaf spot''} \<and> length (has_symptom st') = 1) \<and>
   (\<exists>st'. load_row \<lparr> row_name = ''Husk Rot'', row_symptoms = Unparsable,
                      row_treatments = Blank \<rparr> init_kb = Inr st' \<and>
          ''Husk Rot'' \<in> all_diseases st' \<and> str_to_id st' (clean ''Husk Rot'') \<noteq> None \<and>
          all_symptoms st' = {} \<and> has_symptom st' = [])"
proof -
  define R1 where "R1 = \<lparr> row_name = ''Husk Rot'',
                      row_symptoms = Literal (PList [PStr ''leaf spot'', PInt 1, PStr ''dieback'']),
                      row_treatments = Blank \<rparr>"
  define R2 where "R2 = \<lparr> row_name = ''Husk Rot'', row_symptoms = Unparsable,
                      row_treatments = Blank \<rparr>"
  have i: "all_symptoms init_kb = {}" "has_symptom init_kb = []" by (simp_all add: init_kb_def)
  have s1: "row_name R1 = ''Husk Rot''"
    "row_symptoms R1 = Literal (PList [PStr ''leaf spot'', PInt 1, PStr ''dieback''])"
    by (simp_all add: R1_def)
  have s2: "row_name R2 = ''Husk Rot''" "row_symptoms R2 = Unparsable"
    by (simp_all add: R2_def)
  from malformed_symptoms_cell [of R1 init_kb]
  have a: "\<exists>st'. load_row R1 init_kb = Inr st' \<and>
          ''Husk Rot'' \<in> all_diseases st' \<and> str_to_id st' (clean ''Husk Rot'') \<noteq> None \<and>
          all_symptoms st' = {''leaf spot''} \<and> length (has_symptom st') = 1"
    unfolding s1 i by clarsimp
  from malformed_symptoms_cell [of R2 init_kb]
  have b: "\<exists>st'. load_row R2 init_kb = Inr st' \<and>
          ''Husk Rot'' \<in> all_diseases st' \<and> str_to_id st' (clean ''Husk Rot'') \<noteq> None \<and>
          all_symptoms st' = {} \<and> has_symptom st' = []"
    unfolding s2 i by clarsimp
  from a b show ?thesis unfolding R1_def R2_def by blast
qed



end
